theory Spec2Isabelle
  imports Main "HOL-Library.Sublist"
begin

section \<open>Text: the string operations the scraper uses\<close>

text \<open>
  A Python \<open>str\<close> is modelled as a \<open>string\<close>, one \<open>char\<close> per code point. A \<open>char\<close> has
  eight bits, so the strings of the model are the Python strings whose code points are
  below 256 (U+0000 to U+00FF); a string with a code point from 256 on has no
  counterpart here. On this range the tables below are those of Python 3:
  \<^item> \<open>str.lower\<close> maps \<open>A..Z\<close> to \<open>a..z\<close> and U+00C0..U+00DE, without U+00D7, to
    U+00E0..U+00FE, and leaves every other code point as it is;
  \<^item> \<open>str.strip\<close>, \<open>str.isspace\<close> and the class \<open>\s\<close> of \<open>re\<close> take U+0009..U+000D,
    U+001C..U+001F, U+0020, U+0085 and U+00A0 as whitespace;
  \<^item> the class \<open>\w\<close> of \<open>re\<close>, on a \<open>str\<close> pattern, holds the underscore and the
    alphanumeric code points: \<open>0..9\<close>, \<open>A..Z\<close>, \<open>a..z\<close>, U+00AA, U+00B2, U+00B3, U+00B5,
    U+00B9, U+00BA, U+00BC..U+00BE, U+00C0..U+00D6, U+00D8..U+00F6 and U+00F8..U+00FF.
\<close>

definition ascii_uppercase :: string where
  "ascii_uppercase = ''ABCDEFGHIJKLMNOPQRSTUVWXYZ''"

definition ascii_lowercase :: string where
  "ascii_lowercase = ''abcdefghijklmnopqrstuvwxyz''"

definition latin1_uppercase :: string where
  "latin1_uppercase =
     [CHR 0xC0, CHR 0xC1, CHR 0xC2, CHR 0xC3, CHR 0xC4, CHR 0xC5, CHR 0xC6,
      CHR 0xC7, CHR 0xC8, CHR 0xC9, CHR 0xCA, CHR 0xCB, CHR 0xCC, CHR 0xCD,
      CHR 0xCE, CHR 0xCF, CHR 0xD0, CHR 0xD1, CHR 0xD2, CHR 0xD3, CHR 0xD4,
      CHR 0xD5, CHR 0xD6, CHR 0xD8, CHR 0xD9, CHR 0xDA, CHR 0xDB, CHR 0xDC,
      CHR 0xDD, CHR 0xDE]"

definition latin1_lowercase :: string where
  "latin1_lowercase =
     [CHR 0xE0, CHR 0xE1, CHR 0xE2, CHR 0xE3, CHR 0xE4, CHR 0xE5, CHR 0xE6,
      CHR 0xE7, CHR 0xE8, CHR 0xE9, CHR 0xEA, CHR 0xEB, CHR 0xEC, CHR 0xED,
      CHR 0xEE, CHR 0xEF, CHR 0xF0, CHR 0xF1, CHR 0xF2, CHR 0xF3, CHR 0xF4,
      CHR 0xF5, CHR 0xF6, CHR 0xF8, CHR 0xF9, CHR 0xFA, CHR 0xFB, CHR 0xFC,
      CHR 0xFD, CHR 0xFE]"

text \<open>The alphanumeric code points from U+0080 on that have no other case.\<close>

definition latin1_caseless :: string where
  "latin1_caseless =
     [CHR 0xAA, CHR 0xB2, CHR 0xB3, CHR 0xB5, CHR 0xB9, CHR 0xBA, CHR 0xBC,
      CHR 0xBD, CHR 0xBE, CHR 0xDF, CHR 0xFF]"

definition digits :: string where
  "digits = ''0123456789''"

definition whitespace :: string where
  "whitespace = [CHR 0x09, CHR 0x0A, CHR 0x0B, CHR 0x0C, CHR 0x0D,
                 CHR 0x1C, CHR 0x1D, CHR 0x1E, CHR 0x1F, CHR '' '', CHR 0x85, CHR 0xA0]"

definition lower_char :: "char \<Rightarrow> char" where
  "lower_char c =
     (case map_of (zip (ascii_uppercase @ latin1_uppercase)
                       (ascii_lowercase @ latin1_lowercase)) c of
        None \<Rightarrow> c | Some d \<Rightarrow> d)"

text \<open>\<open>s.lower()\<close>\<close>

definition lower :: "string \<Rightarrow> string" where
  "lower s = map lower_char s"

definition isspace :: "char \<Rightarrow> bool" where
  "isspace c = (c \<in> set whitespace)"

text \<open>\<open>s.strip()\<close>: whitespace is dropped at both ends, never inside.\<close>

definition lstrip :: "string \<Rightarrow> string" where
  "lstrip s = dropWhile isspace s"

definition rstrip :: "string \<Rightarrow> string" where
  "rstrip s = rev (dropWhile isspace (rev s))"

definition strip :: "string \<Rightarrow> string" where
  "strip s = rstrip (lstrip s)"

text \<open>
  \<open>s.replace(old, new)\<close> where \<open>old\<close> and \<open>new\<close> are one character each, which is every use
  the scraper makes of it: each occurrence is replaced, one for one.
\<close>

definition replace_char :: "char \<Rightarrow> char \<Rightarrow> string \<Rightarrow> string" where
  "replace_char old new s = map (\<lambda>c. if c = old then new else c) s"

text \<open>\<open>s.startswith(p)\<close>, \<open>s.endswith(p)\<close> and \<open>p in s\<close> on strings.\<close>

fun startswith :: "string \<Rightarrow> string \<Rightarrow> bool" where
  "startswith s [] = True"
| "startswith [] (p # ps) = False"
| "startswith (c # cs) (p # ps) = (c = p \<and> startswith cs ps)"

definition endswith :: "string \<Rightarrow> string \<Rightarrow> bool" where
  "endswith s p = (length p \<le> length s \<and> drop (length s - length p) s = p)"

fun contains :: "string \<Rightarrow> string \<Rightarrow> bool" where
  "contains [] p = (p = [])"
| "contains (c # cs) p = (startswith (c # cs) p \<or> contains cs p)"

section \<open>Column headers (process_pdf, line 105)\<close>

text \<open>
  \<open>str(col).lower().replace('\r', ' ').replace('\n', ' ').strip().replace(' ', '_')\<close>.
  A header is a string in this model, so \<open>str(col)\<close> is \<open>col\<close>.
\<close>

definition clean_column :: "string \<Rightarrow> string" where
  "clean_column col =
     replace_char (CHR '' '') (CHR ''_'')
       (strip (replace_char (CHR 0x0A) (CHR '' '')
                (replace_char (CHR 0x0D) (CHR '' '') (lower col))))"

text \<open>
  The header the specification describes: lower-cased, trimmed, and every maximal run of
  whitespace inside it collapsed to one underscore.
\<close>

fun collapse_runs :: "bool \<Rightarrow> string \<Rightarrow> string" where
  "collapse_runs in_run [] = []"
| "collapse_runs in_run (c # cs) =
     (if isspace c then (if in_run then collapse_runs True cs
                         else CHR ''_'' # collapse_runs True cs)
      else c # collapse_runs False cs)"

definition collapsed_column :: "string \<Rightarrow> string" where
  "collapsed_column col = collapse_runs False (strip (lower col))"

text \<open>What one character of a trimmed header becomes.\<close>

definition clean_char :: "char \<Rightarrow> char" where
  "clean_char c =
     (if c = CHR '' '' \<or> c = CHR 0x0D \<or> c = CHR 0x0A then CHR ''_'' else lower_char c)"

section \<open>The network: get_page (lines 47 to 57)\<close>

text \<open>
  What \<open>session.get(url, timeout=45)\<close> does: it raises a \<open>RequestException\<close> (connection
  error, timeout, invalid URL) or returns a response with a status code and a body.
\<close>

record response =
  status_code :: nat
  content :: string

datatype outcome = RequestException | Responded response

text \<open>What the scraper does to the outside world, in the order it does it.\<close>

datatype event = Sleep nat | Get string

text \<open>The calls of \<open>logging\<close>, one constructor per call site, with the values formatted.\<close>

datatype log_entry =
    Warn_attempt_failed nat string
  | Info_searching string
  | Info_found nat
  | Info_processing string
  | Warn_no_tables string
  | Info_extracted nat string
  | Error_tabula string
  | Info_unique nat
  | Info_saved nat string
  | Warn_no_data

text \<open>
  A cell of a table: the missing-value marker, a string, an integer, or a float, which
  is kept as Python prints it (no arithmetic is done on cells).
\<close>

datatype cell = NaN | Str string | Num int | Flt string

text \<open>
  A \<open>pandas.DataFrame\<close>: the column labels in order (labels may repeat) and the rows, each
  row holding one cell per column.
\<close>

record dataframe =
  columns :: "string list"
  rows :: "cell list list"

text \<open>An anchor element of a parsed page: its \<open>href\<close> attribute, if it has one, and its
  text nodes in document order.\<close>

record tag =
  href :: "string option"
  strings :: "string list"

text \<open>
  The libraries and the surroundings the scraper calls, as parameters of the model:
  \<^item> \<open>session_get n url\<close>: the outcome of the \<open>n\<close>-th GET of the run (counted from 0);
  \<^item> \<open>find_all_a body\<close>: the \<open>a\<close> elements of \<open>BeautifulSoup(body, 'lxml')\<close> in document order;
  \<^item> \<open>urljoin base target\<close>: \<open>urllib.parse.urljoin\<close>;
  \<^item> \<open>read_pdf body\<close>: \<open>tabula.read_pdf\<close> on the file just written with \<open>body\<close>:
    \<open>None\<close> when it raises, the tables otherwise;
  \<^item> \<open>now_isoformat n\<close> and \<open>now_strftime n\<close>: the \<open>n\<close>-th reading of \<open>datetime.now()\<close>,
    formatted by \<open>isoformat()\<close> and by \<open>strftime("%Y%m%d_%H%M%S")\<close>;
  \<^item> \<open>astype frames j x\<close>: what the cell \<open>x\<close> becomes in column \<open>j\<close> of
    \<open>pd.concat(frames)\<close>. Pandas gives each column of the result one dtype, the common one
    of the frames' columns, and converts the cells to it: an integer column that some
    frame lacks becomes a float column.
\<close>

record env =
  session_get :: "nat \<Rightarrow> string \<Rightarrow> outcome"
  find_all_a :: "string \<Rightarrow> tag list"
  urljoin :: "string \<Rightarrow> string \<Rightarrow> string"
  read_pdf :: "string \<Rightarrow> dataframe list option"
  now_isoformat :: "nat \<Rightarrow> string"
  now_strftime :: "nat \<Rightarrow> string"
  astype :: "dataframe list \<Rightarrow> nat \<Rightarrow> cell \<Rightarrow> cell"

text \<open>
  The state of a run: the GETs issued so far, the sleeps and GETs in order, the log, the
  files written under \<open>raw_pdfs\<close> (name and bytes), \<open>self.all_bids\<close>, the readings of the
  clock so far, and the files written under \<open>processed_data\<close>. The output directories
  are taken to exist and writing to succeed.
\<close>

record world =
  requests :: nat
  trace :: "event list"
  logged :: "log_entry list"
  raw_pdfs :: "(string \<times> string) list"
  all_bids :: "dataframe list"
  ticks :: nat
  processed_data :: "(string \<times> dataframe) list"

definition emit :: "log_entry \<Rightarrow> world \<Rightarrow> world" where
  "emit entry w = w\<lparr>logged := logged w @ [entry]\<rparr>"

text \<open>\<open>response.raise_for_status()\<close> raises \<open>HTTPError\<close> on a status from 400 to 599.\<close>

definition http_error :: "response \<Rightarrow> bool" where
  "http_error r = (400 \<le> status_code r \<and> status_code r < 600)"

text \<open>The \<open>try\<close> body after the GET: the response it returns, \<open>None\<close> when it raised.\<close>

definition checked :: "outcome \<Rightarrow> response option" where
  "checked out = (case out of
       RequestException \<Rightarrow> None
     | Responded r \<Rightarrow> if http_error r then None else Some r)"

text \<open>The \<open>for attempt in range(retries)\<close> loop, over the attempts still to make.\<close>

fun attempts :: "env \<Rightarrow> string \<Rightarrow> nat \<Rightarrow> nat \<Rightarrow> nat list \<Rightarrow> world
    \<Rightarrow> response option \<times> world" where
  "attempts e u retries delay [] w = (None, w)"
| "attempts e u retries delay (attempt # rest) w =
     (let w1 = w\<lparr>trace := trace w @ [Sleep delay]\<rparr>;
          out = session_get e (requests w1) u;
          w2 = w1\<lparr>trace := trace w1 @ [Get u], requests := requests w1 + 1\<rparr>
      in case checked out of
           Some r \<Rightarrow> (Some r, w2)
         | None \<Rightarrow>
             (let w3 = emit (Warn_attempt_failed (attempt + 1) u) w2
              in if attempt = retries - 1 then (None, w3)
                 else attempts e u retries delay rest w3))"

definition get_page :: "env \<Rightarrow> string \<Rightarrow> nat \<Rightarrow> nat \<Rightarrow> world \<Rightarrow> response option \<times> world" where
  "get_page e u retries delay w = attempts e u retries delay [0..<retries] w"

text \<open>The defaults \<open>retries=3, delay=2\<close>, which every caller uses.\<close>

definition get_page_default :: "env \<Rightarrow> string \<Rightarrow> world \<Rightarrow> response option \<times> world" where
  "get_page_default e u w = get_page e u 3 2 w"

section \<open>Links: find_project_links (lines 59 to 78)\<close>

record project =
  name :: string
  url :: string
  source :: string

text \<open>The list \<open>keywords\<close> of line 68.\<close>

definition link_keywords :: "string list" where
  "link_keywords = [''bid'', ''tabulation'', ''letting'', ''award'', ''solicitation'', ''project'']"

text \<open>
  \<open>link.get_text(strip=True)\<close>: every text node stripped, the empty ones left out, the rest
  joined with nothing between them.
\<close>

definition get_text :: "tag \<Rightarrow> string" where
  "get_text t = concat (filter (\<lambda>s. s \<noteq> []) (map strip (strings t)))"

text \<open>
  \<open>soup.find_all('a', href=True)\<close>: the anchors that have the attribute, whatever its
  value, each paired with the value \<open>link['href']\<close> reads.
\<close>

definition find_all_href :: "tag list \<Rightarrow> (string \<times> tag) list" where
  "find_all_href tags =
     List.map_filter (\<lambda>t. case href t of None \<Rightarrow> None | Some h \<Rightarrow> Some (h, t)) tags"

text \<open>The condition of line 71.\<close>

definition is_project_link :: "string \<Rightarrow> string \<Rightarrow> bool" where
  "is_project_link link_text h =
     (list_ex (\<lambda>keyword. contains (lower link_text) keyword) link_keywords
      \<and> endswith (lower h) ''.pdf'')"

text \<open>The \<open>for link in links\<close> loop, with \<open>project_links\<close> as it grows.\<close>

fun collect_links :: "(string \<Rightarrow> string \<Rightarrow> string) \<Rightarrow> string \<Rightarrow> (string \<times> tag) list
    \<Rightarrow> project list \<Rightarrow> project list" where
  "collect_links join page_url [] project_links = project_links"
| "collect_links join page_url ((h, link) # links) project_links =
     (let link_text = get_text link
      in if is_project_link link_text h
         then collect_links join page_url links
                (project_links @ [\<lparr>name = link_text, url = join page_url h, source = page_url\<rparr>])
         else collect_links join page_url links project_links)"

text \<open>
  \<open>if not response\<close>: a \<open>requests.Response\<close> is false when its status is an error status,
  and \<open>None\<close> is false.
\<close>

definition find_project_links :: "env \<Rightarrow> string \<Rightarrow> world \<Rightarrow> project list \<times> world" where
  "find_project_links e page_url w =
     (let (response, w1) = get_page_default e page_url (emit (Info_searching page_url) w)
      in case response of
           None \<Rightarrow> ([], w1)
         | Some r \<Rightarrow>
             if http_error r then ([], w1)
             else (let links = find_all_href (find_all_a e (content r));
                       project_links = collect_links (urljoin e) page_url links []
                   in (project_links, emit (Info_found (length project_links)) w1)))"

section \<open>Documents and tables: process_pdf (lines 80 to 111)\<close>

text \<open>
  The regular expressions the scraper uses are one character class each. A class is a
  list of items, \<open>\w\<close>, \<open>\s\<close> or a literal character, and may be negated (\<open>[^...]\<close>).
\<close>

definition is_word :: "char \<Rightarrow> bool" where
  "is_word c = (c \<in> set (ascii_lowercase @ ascii_uppercase @ digits @ ''_''
                          @ latin1_uppercase @ latin1_lowercase @ latin1_caseless))"

datatype class_item = Word | Space | Lit char

datatype char_class = Class "class_item list" | Negated "class_item list"

fun item_matches :: "class_item \<Rightarrow> char \<Rightarrow> bool" where
  "item_matches Word c = is_word c"
| "item_matches Space c = isspace c"
| "item_matches (Lit l) c = (c = l)"

fun class_matches :: "char_class \<Rightarrow> char \<Rightarrow> bool" where
  "class_matches (Class items) c = list_ex (\<lambda>i. item_matches i c) items"
| "class_matches (Negated items) c = (\<not> list_ex (\<lambda>i. item_matches i c) items)"

text \<open>
  \<open>re.sub(pattern, repl, s)\<close> for a pattern that is one character class: from left to
  right, every character the class matches is replaced by \<open>repl\<close>.
\<close>

fun re_sub :: "char_class \<Rightarrow> string \<Rightarrow> string \<Rightarrow> string" where
  "re_sub pattern repl [] = []"
| "re_sub pattern repl (c # cs) =
     (if class_matches pattern c then repl @ re_sub pattern repl cs
      else c # re_sub pattern repl cs)"

text \<open>The pattern \<open>[^\w\s-]\<close> of line 85.\<close>

definition unsafe_chars :: char_class where
  "unsafe_chars = Negated [Word, Space, Lit (CHR ''-'')]"

text \<open>Line 85, without the directory: \<open>pdf_path.name\<close>.\<close>

definition pdf_name :: "string \<Rightarrow> string" where
  "pdf_name project_name =
     replace_char (CHR '' '') (CHR ''_'') (take 100 (re_sub unsafe_chars [] project_name))
     @ ''.pdf''"

text \<open>\<open>df.empty\<close>: some axis has length 0.\<close>

definition df_empty :: "dataframe \<Rightarrow> bool" where
  "df_empty df = (columns df = [] \<or> rows df = [])"

text \<open>
  \<open>df[label] = value\<close> with a scalar: every column that carries the label is overwritten
  in every row; when no column carries it, a new last column is added.
\<close>

definition setitem :: "dataframe \<Rightarrow> string \<Rightarrow> cell \<Rightarrow> dataframe" where
  "setitem df label v =
     (if label \<in> set (columns df)
      then df\<lparr>rows := map (\<lambda>r. map (\<lambda>(c, x). if c = label then v else x) (zip (columns df) r))
                           (rows df)\<rparr>
      else \<lparr>columns = columns df @ [label], rows = map (\<lambda>r. r @ [v]) (rows df)\<rparr>)"

definition provenance :: "string list" where
  "provenance = [''project_name'', ''source_url'', ''pdf_source_file'', ''pdf_table_index'',
                 ''scrape_timestamp'']"

text \<open>One round of the \<open>for i, df in enumerate(tables)\<close> loop (lines 96 to 107).\<close>

definition process_table :: "env \<Rightarrow> project \<Rightarrow> string \<Rightarrow> world \<Rightarrow> nat \<times> dataframe \<Rightarrow> world" where
  "process_table e p file_name w idf =
     (case idf of (i, df) \<Rightarrow>
        if df_empty df \<or> length (columns df) < 2 then w
        else (let df1 = setitem df ''project_name'' (Str (name p));
                  df2 = setitem df1 ''source_url'' (Str (url p));
                  df3 = setitem df2 ''pdf_source_file'' (Str file_name);
                  df4 = setitem df3 ''pdf_table_index'' (Num (int i));
                  df5 = setitem df4 ''scrape_timestamp'' (Str (now_isoformat e (ticks w)));
                  df6 = df5\<lparr>columns := map clean_column (columns df5)\<rparr>
              in w\<lparr>ticks := ticks w + 1, all_bids := all_bids w @ [df6]\<rparr>))"

definition process_tables :: "env \<Rightarrow> project \<Rightarrow> string \<Rightarrow> dataframe list \<Rightarrow> world \<Rightarrow> world" where
  "process_tables e p file_name tables w =
     foldl (process_table e p file_name) w (enumerate 0 tables)"

definition process_pdf :: "env \<Rightarrow> project \<Rightarrow> world \<Rightarrow> world" where
  "process_pdf e p w =
     (let (response, w1) = get_page_default e (url p) (emit (Info_processing (name p)) w)
      in case response of
           None \<Rightarrow> w1
         | Some r \<Rightarrow>
             if http_error r then w1
             else (let file_name = pdf_name (name p);
                       w2 = w1\<lparr>raw_pdfs := raw_pdfs w1 @ [(file_name, content r)]\<rparr>
                   in case read_pdf e (content r) of
                        None \<Rightarrow> emit (Error_tabula file_name) w2
                      | Some tables \<Rightarrow>
                          if tables = [] then emit (Warn_no_tables file_name) w2
                          else emit (Info_extracted (length tables) file_name)
                                 (process_tables e p file_name tables w2)))"

section \<open>The run (lines 113 to 135)\<close>

definition base_urls :: "string list" where
  "base_urls =
     [''https://ncadmin.nc.gov/businesses/construction/projects-design-advertised-bidding'',
      ''https://connect.ncdot.gov/letting/Pages/default.aspx'',
      ''https://www.mecknc.gov/Finance/Procurement/Pages/Solicitations.aspx'',
      ''https://www.wake.gov/departments-government/finance/business-inclusion-procurement/solicitation-opportunities'',
      ''https://www.charlottenc.gov/Businesses/Business-Inclusion/Vendor-Management'',
      ''https://raleighnc.gov/doing-business/bids-and-proposals'',
      ''https://www.cmsk12.org/en-US/doing-business/solicitations'']"

text \<open>Line 115.\<close>

definition urls_to_scan :: "string \<Rightarrow> string list" where
  "urls_to_scan mode = (if mode = ''full'' then base_urls else [base_urls ! 0])"

text \<open>Lines 117 and 118: \<open>all_project_links.extend(...)\<close> page after page.\<close>

fun scan_pages :: "env \<Rightarrow> string list \<Rightarrow> project list \<Rightarrow> world \<Rightarrow> project list \<times> world" where
  "scan_pages e [] all_project_links w = (all_project_links, w)"
| "scan_pages e (u # us) all_project_links w =
     (let (found, w1) = find_project_links e u w
      in scan_pages e us (all_project_links @ found) w1)"

text \<open>
  A Python \<open>dict\<close> keeps its keys in the order of their first insertion; storing under a
  key that is present replaces the value and leaves the position.
\<close>

fun dict_set :: "('k \<times> 'v) list \<Rightarrow> 'k \<Rightarrow> 'v \<Rightarrow> ('k \<times> 'v) list" where
  "dict_set [] k v = [(k, v)]"
| "dict_set ((k', v') # d) k v =
     (if k' = k then (k', v) # d else (k', v') # dict_set d k v)"

text \<open>Line 120: \<open>{p['url']: p for p in all_project_links}.values()\<close>.\<close>

definition by_url :: "project list \<Rightarrow> (string \<times> project) list" where
  "by_url all_project_links = foldl (\<lambda>d p. dict_set d (url p) p) [] all_project_links"

definition unique_projects :: "project list \<Rightarrow> project list" where
  "unique_projects all_project_links = map snd (by_url all_project_links)"

text \<open>Line 123.\<close>

definition projects_to_process :: "string \<Rightarrow> project list \<Rightarrow> project list" where
  "projects_to_process mode unique = (if mode = ''full'' then unique else take 5 unique)"

text \<open>Lines 114 to 126: everything before the output is written.\<close>

definition collect :: "env \<Rightarrow> string \<Rightarrow> world \<Rightarrow> world" where
  "collect e mode w =
     (let (all_project_links, w1) = scan_pages e (urls_to_scan mode) [] w;
          unique = unique_projects all_project_links;
          w2 = emit (Info_unique (length unique)) w1
      in foldl (\<lambda>w' p. process_pdf e p w') w2 (projects_to_process mode unique))"

text \<open>
  \<open>pd.concat(objs, ignore_index=True)\<close>, row-wise. With the same labels in every frame the
  rows are stacked. Otherwise the result has every label once, in the order of first
  appearance, and each frame is re-indexed to these labels, a label it lacks giving
  \<open>NaN\<close>; re-indexing a frame whose labels repeat raises \<open>InvalidIndexError\<close>. In both
  cases the cells are then converted to the dtype of their column. An empty list of
  frames raises \<open>ValueError\<close>.
\<close>

datatype py_error = InvalidIndexError | ValueError

fun unique_labels :: "'a list \<Rightarrow> 'a list" where
  "unique_labels [] = []"
| "unique_labels (x # xs) = x # filter (\<lambda>y. y \<noteq> x) (unique_labels xs)"

definition cell_at :: "string list \<Rightarrow> cell list \<Rightarrow> string \<Rightarrow> cell option" where
  "cell_at labels r l = map_of (zip labels r) l"

definition reindex :: "string list \<Rightarrow> dataframe \<Rightarrow> cell list list" where
  "reindex labels df =
     map (\<lambda>r. map (\<lambda>l. case cell_at (columns df) r l of None \<Rightarrow> NaN | Some x \<Rightarrow> x) labels)
         (rows df)"

definition convert :: "(nat \<Rightarrow> cell \<Rightarrow> cell) \<Rightarrow> cell list list \<Rightarrow> cell list list" where
  "convert to_dtype rs = map (\<lambda>r. map (\<lambda>(j, x). to_dtype j x) (enumerate 0 r)) rs"

fun pd_concat :: "(dataframe list \<Rightarrow> nat \<Rightarrow> cell \<Rightarrow> cell) \<Rightarrow> dataframe list
    \<Rightarrow> py_error + dataframe" where
  "pd_concat to_dtype [] = Inl ValueError"
| "pd_concat to_dtype (df # dfs) =
     (if list_all (\<lambda>d. columns d = columns df) dfs
      then Inr \<lparr>columns = columns df,
                rows = convert (to_dtype (df # dfs)) (concat (map rows (df # dfs)))\<rparr>
      else if list_ex (\<lambda>d. \<not> distinct (columns d)) (df # dfs) then Inl InvalidIndexError
      else (let labels = unique_labels (concat (map columns (df # dfs)))
            in Inr \<lparr>columns = labels,
                    rows = convert (to_dtype (df # dfs))
                             (concat (map (reindex labels) (df # dfs)))\<rparr>))"

text \<open>
  Lines 128 to 135. An exception of \<open>pd.concat\<close> is caught nowhere and ends the run; the
  file written by \<open>to_csv\<close> is recorded as its name and the table it holds.
\<close>

definition save_results :: "env \<Rightarrow> world \<Rightarrow> py_error + world" where
  "save_results e w =
     (if all_bids w \<noteq> [] then
        (case pd_concat (astype e) (all_bids w) of
           Inl err \<Rightarrow> Inl err
         | Inr final_df \<Rightarrow>
             (let timestamp = now_strftime e (ticks w);
                  output_path = ''nc_bid_data_'' @ timestamp @ ''.csv'';
                  w1 = w\<lparr>ticks := ticks w + 1,
                         processed_data := processed_data w @ [(output_path, final_df)]\<rparr>
              in Inr (emit (Info_saved (length (rows final_df)) output_path) w1)))
      else Inr (emit Warn_no_data w))"

definition run :: "env \<Rightarrow> string \<Rightarrow> world \<Rightarrow> py_error + world" where
  "run e mode w = save_results e (collect e mode w)"

text \<open>The state \<open>NCBidScraper()\<close> starts from.\<close>

definition fresh :: world where
  "fresh = \<lparr>requests = 0, trace = [], logged = [], raw_pdfs = [], all_bids = [], ticks = 0,
             processed_data = []\<rparr>"


text \<open>What the log says was scanned and what it says was processed.\<close>

fun scanned :: "log_entry list \<Rightarrow> string list" where
  "scanned [] = []"
| "scanned (Info_searching u # l) = u # scanned l"
| "scanned (x # l) = scanned l"

fun processed :: "log_entry list \<Rightarrow> string list" where
  "processed [] = []"
| "processed (Info_processing n # l) = n # processed l"
| "processed (x # l) = processed l"

section \<open>Notions used in the statements\<close>

text \<open>Lower-casing and the two replacements of line breaks, on one character.\<close>

definition unbreak :: "char \<Rightarrow> char" where
  "unbreak c =
     (let d = lower_char c; d1 = (if d = CHR 0x0D then CHR '' '' else d)
      in if d1 = CHR 0x0A then CHR '' '' else d1)"

text \<open>A string with no whitespace at either end.\<close>

definition trimmed :: "string \<Rightarrow> bool" where
  "trimmed s = (s = [] \<or> (\<not> isspace (hd s) \<and> \<not> isspace (last s)))"

text \<open>The provenance labels a raw table does not carry already.\<close>

definition added :: "dataframe \<Rightarrow> string list" where
  "added df = filter (\<lambda>l. l \<notin> set (columns df)) provenance"

text \<open>A table the aggregation keeps: at least two columns and at least one row.\<close>

definition accepted :: "dataframe \<Rightarrow> bool" where
  "accepted df = (\<not> (length (columns df) < 2 \<or> rows df = []))"

text \<open>The \<open>n\<close>-th GET of the run, sent to \<open>u\<close>, counts as a failed attempt.\<close>

definition failed :: "env \<Rightarrow> string \<Rightarrow> nat \<Rightarrow> bool" where
  "failed e u n = (checked (session_get e n u) = None)"


text \<open>
  Frames \<open>pd.concat\<close> can put together: no frame repeats a label, or all frames carry
  the same labels in the same order.
\<close>

definition compatible :: "dataframe list \<Rightarrow> bool" where
  "compatible dfs = (list_all (\<lambda>d. distinct (columns d)) dfs
                     \<or> list_all (\<lambda>d. columns d = columns (hd dfs)) dfs)"


text \<open>
  The table the specification expects in the collection for an accepted raw table: the
  headers cleaned, the five provenance labels behind them, and every row with the five
  provenance values behind its cells. \<open>t\<close> is the reading of the clock and \<open>i\<close> the index of
  the table among the tables of its document.
\<close>

definition with_provenance :: "env \<Rightarrow> project \<Rightarrow> string \<Rightarrow> nat \<Rightarrow> nat \<Rightarrow> dataframe \<Rightarrow> dataframe" where
  "with_provenance e p file_name t i df =
     \<lparr>columns = map clean_column (columns df) @ provenance,
      rows = map (\<lambda>r. r @ [Str (name p), Str (url p), Str file_name, Num (int i),
                            Str (now_isoformat e t)]) (rows df)\<rparr>"

fun expected_bids :: "env \<Rightarrow> project \<Rightarrow> string \<Rightarrow> nat \<Rightarrow> (nat \<times> dataframe) list
    \<Rightarrow> dataframe list" where
  "expected_bids e p file_name t [] = []"
| "expected_bids e p file_name t ((i, df) # rest) =
     (if accepted df
      then with_provenance e p file_name t i df # expected_bids e p file_name (Suc t) rest
      else expected_bids e p file_name t rest)"

section \<open>Concrete inputs\<close>

text \<open>A network that is down: every GET raises.\<close>

definition offline :: env where
  "offline = \<lparr>session_get = (\<lambda>n u. RequestException), find_all_a = (\<lambda>body. []),
              urljoin = (\<lambda>base target. target), read_pdf = (\<lambda>body. None),
              now_isoformat = (\<lambda>n. ''2024-01-01T00:00:00''),
              now_strftime = (\<lambda>n. ''20240101_000000''),
              astype = (\<lambda>frames j x. x)\<rparr>"

definition road :: project where
  "road = \<lparr>name = ''Bid: Road/Bridge (Final)!!'',
            url = ''https://example.org/files/bid123.pdf'',
            source = ''https://example.org/bids''\<rparr>"

text \<open>Three raw tables: two columns and three rows; a header with two spaces in a row;
  a header that is a provenance label.\<close>

definition plain_table :: dataframe where
  "plain_table = \<lparr>columns = [''Bidder'', ''Amount''],
                   rows = [[Str ''A'', Str ''1''], [Str ''B'', Str ''2''], [Str ''C'', Str ''3'']]\<rparr>"

definition spaced_table :: dataframe where
  "spaced_table = \<lparr>columns = [''Bid  Amount'', ''Item''], rows = [[Str ''1'', Str ''x'']]\<rparr>"

definition labelled_table :: dataframe where
  "labelled_table = \<lparr>columns = [''project_name'', ''Amount''],
                      rows = [[Str ''A'', Str ''1''], [Str ''B'', Str ''2''], [Str ''C'', Str ''3'']]\<rparr>"

definition narrow_table :: dataframe where
  "narrow_table = \<lparr>columns = [''Total''], rows = [[Str ''6'']]\<rparr>"

text \<open>
  A page with six anchors, served at the third attempt, every document answered at once
  and holding a table of one column and a table of two; \<open>urljoin\<close> is stood in for by
  putting the target behind a fixed base. The cells of these tables are strings, and
  the table index is an integer in every accepted table, so \<open>pd.concat\<close> converts no
  cell.
\<close>

definition sample_anchors :: "tag list" where
  "sample_anchors =
     [\<lparr>href = Some ''files/bid123.pdf'', strings = [''2024 Bid Tabulation'']\<rparr>,
      \<lparr>href = Some ''about.html'', strings = [''Project list'']\<rparr>,
      \<lparr>href = None, strings = [''Bid results'']\<rparr>,
      \<lparr>href = Some ''files/bid123.pdf'', strings = ['' Award '', '' '', ''letter'']\<rparr>,
      \<lparr>href = Some ''docs/Map.PDF'', strings = [''Letting map'']\<rparr>,
      \<lparr>href = Some ''docs/contact.pdf'', strings = [''Contact'']\<rparr>]"

definition sample :: env where
  "sample = \<lparr>session_get = (\<lambda>n u. if n = 0 then RequestException
                                  else Responded \<lparr>status_code = (if n = 1 then 503 else 200),
                                                  content = u\<rparr>),
             find_all_a = (\<lambda>body. sample_anchors),
             urljoin = (\<lambda>base target. ''https://example.org/'' @ target),
             read_pdf = (\<lambda>body. Some [narrow_table, plain_table]),
             now_isoformat = (\<lambda>n. ''2024-01-01T00:00:00''),
             now_strftime = (\<lambda>n. ''20240101_000000''),
             astype = (\<lambda>frames j x. x)\<rparr>"

text \<open>The links the sample page gives: the first two share their URL.\<close>

definition sample_links :: "project list" where
  "sample_links =
     [\<lparr>name = ''2024 Bid Tabulation'', url = ''https://example.org/files/bid123.pdf'',
        source = ''https://example.org/bids''\<rparr>,
      \<lparr>name = ''Awardletter'', url = ''https://example.org/files/bid123.pdf'',
        source = ''https://example.org/bids''\<rparr>,
      \<lparr>name = ''Letting map'', url = ''https://example.org/docs/Map.PDF'',
        source = ''https://example.org/bids''\<rparr>]"

text \<open>A table whose two headers differ in case only.\<close>

definition twin_table :: dataframe where
  "twin_table = \<lparr>columns = [''Amount'', ''amount''], rows = [[Str ''1'', Str ''2'']]\<rparr>"

text \<open>Twelve links with twelve URLs.\<close>

definition twelve :: "project list" where
  "twelve = map (\<lambda>n. \<lparr>name = ''Bid '' @ replicate n (CHR ''I''),
                       url = ''https://example.org/'' @ replicate n (CHR ''x'') @ ''.pdf'',
                       source = ''https://example.org/bids''\<rparr>) [0..<12]"

text \<open>
  A table of one column whose header is a provenance label, and a table whose headers
  hold a no-break space (U+00A0) at both ends and a capital U with circumflex (U+00DB).
\<close>

definition junk_table :: dataframe where
  "junk_table = \<lparr>columns = [''project_name''], rows = [[Str ''x'']]\<rparr>"

definition accent_table :: dataframe where
  "accent_table = \<lparr>columns = [CHR 0xA0 # ''Total'' @ [CHR 0xA0], ''CO'' @ [CHR 0xDB] @ ''T  HT''],
                    rows = [[Str ''1'', Str ''2'']]\<rparr>"

text \<open>
  An anchor with two text nodes, as in \<open>Bi <b>d</b>\<close>: \<open>Bi\<close> with a space behind it, and
  \<open>d\<close> between two no-break spaces (U+00A0); and the sample with a page that holds this
  anchor only.
\<close>

definition split_anchor :: tag where
  "split_anchor = \<lparr>href = Some ''files/plan.pdf'',
                    strings = [''Bi '', CHR 0xA0 # ''d'' @ [CHR 0xA0]]\<rparr>"

definition split_page :: env where
  "split_page = sample\<lparr>find_all_a := (\<lambda>body. [split_anchor])\<rparr>"

text \<open>A project whose name holds a small e with acute accent (U+00E9).\<close>

definition cafe :: project where
  "cafe = \<lparr>name = ''Caf'' @ [CHR 0xE9] @ '' Bid: x/y'',
            url = ''https://example.org/files/cafe.pdf'',
            source = ''https://example.org/bids''\<rparr>"

text \<open>
  A page with one link to a document, and in the document the table with the twin
  headers and the plain table.
\<close>

definition clash :: env where
  "clash = split_page\<lparr>read_pdf := (\<lambda>body. Some [twin_table, plain_table])\<rparr>"

section \<open>Properties of the header normalisation\<close>

lemma lower_char_idem: "lower_char (lower_char c) = lower_char c"
  by (auto simp add: lower_char_def ascii_uppercase_def ascii_lowercase_def
        latin1_uppercase_def latin1_lowercase_def
        split: option.splits if_splits)

lemma isspace_lower_char: "isspace (lower_char c) = isspace c"
  by (auto simp add: isspace_def whitespace_def lower_char_def ascii_uppercase_def
        ascii_lowercase_def latin1_uppercase_def latin1_lowercase_def
        split: option.splits if_splits)

lemma lower_char_eq_break:
  "lower_char c = CHR '' '' \<longleftrightarrow> c = CHR '' ''"
  "lower_char c = CHR 0x0D \<longleftrightarrow> c = CHR 0x0D"
  "lower_char c = CHR 0x0A \<longleftrightarrow> c = CHR 0x0A"
  by (auto simp add: lower_char_def ascii_uppercase_def ascii_lowercase_def
        latin1_uppercase_def latin1_lowercase_def
        split: option.splits if_splits)

lemma isspace_unbreak: "isspace (unbreak c) = isspace c"
  by (auto simp add: unbreak_def Let_def isspace_lower_char)
     (auto simp: isspace_def whitespace_def lower_char_eq_break)

lemma strip_map:
  assumes "\<And>c. isspace (f c) = isspace c"
  shows "strip (map f s) = map f (strip s)"
  using assms by (simp add: strip_def lstrip_def rstrip_def dropWhile_map rev_map comp_def)

text \<open>Each character of the trimmed header gives one character of the stored header.\<close>

lemma clean_column_chars: "clean_column h = map clean_char (strip h)"
proof -
  have "replace_char (CHR 0x0A) (CHR '' '') (replace_char (CHR 0x0D) (CHR '' '') (lower h))
          = map unbreak h"
    by (simp add: replace_char_def lower_def unbreak_def Let_def)
  moreover have "(if unbreak c = CHR '' '' then CHR ''_'' else unbreak c) = clean_char c" for c
    by (auto simp: unbreak_def clean_char_def Let_def lower_char_eq_break)
  ultimately show ?thesis
    by (simp add: clean_column_def strip_map isspace_unbreak replace_char_def)
qed

lemma last_dropWhile_ne: "dropWhile P xs \<noteq> [] \<Longrightarrow> last (dropWhile P xs) = last xs"
  by (induction xs) (auto split: if_splits)

lemma trimmed_strip: "trimmed (strip h)"
proof (cases "strip h = []")
  case True
  then show ?thesis by (simp add: trimmed_def)
next
  case False
  let ?a = "dropWhile isspace h"
  let ?b = "dropWhile isspace (rev ?a)"
  have s: "strip h = rev ?b" by (simp add: strip_def lstrip_def rstrip_def)
  from False s have b: "?b \<noteq> []" by simp
  have a: "?a \<noteq> []"
  proof
    assume "?a = []"
    then have "?b = []" by (simp only: rev.simps dropWhile.simps)
    with b show False by contradiction
  qed
  have "\<not> isspace (hd ?b)" using b by (rule hd_dropWhile)
  moreover have "last ?b = last (rev ?a)" using b by (rule last_dropWhile_ne)
  then have "last ?b = hd ?a" using a by (simp add: last_rev)
  moreover have "\<not> isspace (hd ?a)" using a by (rule hd_dropWhile)
  ultimately show ?thesis using b by (simp add: trimmed_def s hd_rev last_rev)
qed

lemma strip_trimmed:
  assumes "trimmed s"
  shows "strip s = s"
proof (cases "s = []")
  case True
  then show ?thesis by (simp add: strip_def lstrip_def rstrip_def)
next
  case False
  with assms have h: "\<not> isspace (hd s)" and l: "\<not> isspace (last s)"
    by (auto simp: trimmed_def)
  from h False have 1: "dropWhile isspace s = s" by (cases s) auto
  from l False have 2: "dropWhile isspace (rev s) = rev s"
    by (cases "rev s") (auto simp: last_rev[symmetric] hd_rev)
  show ?thesis by (simp add: strip_def lstrip_def rstrip_def 1 2)
qed

lemma isspace_clean_char: "isspace (clean_char c) \<Longrightarrow> isspace c"
  by (auto simp: clean_char_def isspace_lower_char split: if_splits)
     (simp_all add: isspace_def whitespace_def)

lemma clean_char_idem: "clean_char (clean_char c) = clean_char c"
  by (auto simp: clean_char_def lower_char_idem lower_char_eq_break)
     (auto simp: lower_char_def ascii_uppercase_def ascii_lowercase_def latin1_uppercase_def
        latin1_lowercase_def)

lemma trimmed_map_clean: "trimmed s \<Longrightarrow> trimmed (map clean_char s)"
  by (auto simp: trimmed_def hd_map last_map dest: isspace_clean_char)

text \<open>
  C10. Cleaning a column header twice gives what cleaning it once gives, for every
  header: the cleaned header is lower-case, has no space, carriage return or newline
  left in it and no whitespace at its ends, so the second pass changes nothing.
\<close>

theorem clean_column_idempotent: "clean_column (clean_column s) = clean_column s"
proof -
  have "strip (map clean_char (strip s)) = map clean_char (strip s)"
    by (rule strip_trimmed, rule trimmed_map_clean, rule trimmed_strip)
  then show ?thesis by (simp add: clean_column_chars clean_char_idem)
qed

section \<open>Properties of get_page\<close>

lemma scanned_append: "scanned (a @ b) = scanned a @ scanned b"
  by (induction a rule: scanned.induct) simp_all

lemma processed_append: "processed (a @ b) = processed a @ processed b"
  by (induction a rule: processed.induct) simp_all

lemma attempts_frame:
  "attempts e u r d as w = (res, w') \<Longrightarrow>
     all_bids w' = all_bids w \<and> raw_pdfs w' = raw_pdfs w \<and> ticks w' = ticks w
     \<and> processed_data w' = processed_data w
     \<and> scanned (logged w') = scanned (logged w) \<and> processed (logged w') = processed (logged w)"
proof (induction as arbitrary: w)
  case Nil
  then show ?case by simp
next
  case (Cons a as)
  show ?case
  proof (cases "checked (session_get e (requests w) u)")
    case (Some r)
    with Cons.prems show ?thesis by (auto simp: Let_def)
  next
    case None
    let ?w3 = "emit (Warn_attempt_failed (a + 1) u)
                 (w\<lparr>trace := trace w @ [Sleep d, Get u], requests := requests w + 1\<rparr>)"
    show ?thesis
    proof (cases "a = r - 1")
      case True
      with None Cons.prems show ?thesis
        by (auto simp: Let_def emit_def scanned_append processed_append)
    next
      case False
      with None Cons.prems have "attempts e u r d as ?w3 = (res, w')"
        by (simp add: Let_def)
      from Cons.IH [OF this] show ?thesis
        by (simp add: emit_def scanned_append processed_append)
    qed
  qed
qed

lemma attempts_ok:
  "attempts e u r d as w = (Some x, w') \<Longrightarrow> \<not> http_error x"
proof (induction as arbitrary: w)
  case Nil
  then show ?case by simp
next
  case (Cons a as)
  show ?case
  proof (cases "checked (session_get e (requests w) u)")
    case (Some y)
    with Cons.prems have "x = y" by (simp add: Let_def)
    with Some show ?thesis by (auto simp: checked_def split: outcome.splits if_splits)
  next
    case None
    with Cons.prems Cons.IH show ?thesis
      by (auto simp: Let_def split: if_splits)
  qed
qed

lemma upt3: "[0..<3] = [0, 1, 2]"
  by (simp add: upt_rec)

text \<open>
  C5. \<open>get_page\<close> with its default arguments makes between one and three GETs, each one
  right after a sleep of 2 seconds, the first included; every attempt before the last one
  made has failed; it returns \<open>None\<close> exactly when it has made three attempts and the third
  failed too, and otherwise the response of the last attempt, which carries no error
  status. The result is a value in every case: nothing is raised. An attempt fails when
  the GET raises a \<open>RequestException\<close> or answers with a status from 400 to 599, the
  statuses \<open>raise_for_status\<close> rejects.
\<close>

theorem get_page_default_retries:
  "(case get_page_default e u w of (res, w') \<Rightarrow>
      (let n = requests w' - requests w in
         1 \<le> n \<and> n \<le> 3
       \<and> trace w' = trace w @ concat (replicate n [Sleep 2, Get u])
       \<and> (\<forall>k < n - 1. failed e u (requests w + k))
       \<and> (case res of
             None \<Rightarrow> n = 3 \<and> failed e u (requests w + 2)
           | Some r \<Rightarrow> session_get e (requests w + (n - 1)) u = Responded r \<and> \<not> http_error r)))
   \<and> (failed e u m \<longleftrightarrow>
        session_get e m u = RequestException
        \<or> (\<exists>r. session_get e m u = Responded r \<and> 400 \<le> status_code r \<and> status_code r < 600))"
proof -
  have c: "checked out = Some r \<Longrightarrow> out = Responded r \<and> \<not> http_error r" for out r
    by (auto simp: checked_def split: outcome.splits if_splits)
  have r2: "replicate 2 x = [x, x]" for x :: "event list" by (simp add: numeral_2_eq_2)
  have r3: "replicate 3 x = [x, x, x]" for x :: "event list" by (simp add: numeral_3_eq_3)
  have lt2: "k < 2 \<longleftrightarrow> k = 0 \<or> k = Suc 0" for k :: nat by auto
  have A: "(case get_page_default e u w of (res, w') \<Rightarrow>
      (let n = requests w' - requests w in
         1 \<le> n \<and> n \<le> 3
       \<and> trace w' = trace w @ concat (replicate n [Sleep 2, Get u])
       \<and> (\<forall>k < n - 1. failed e u (requests w + k))
       \<and> (case res of
             None \<Rightarrow> n = 3 \<and> failed e u (requests w + 2)
           | Some r \<Rightarrow> session_get e (requests w + (n - 1)) u = Responded r \<and> \<not> http_error r)))"
    by (auto simp: get_page_default_def get_page_def upt3 Let_def emit_def failed_def lt2 r2 r3
          dest: c split: option.splits)
  have B: "(failed e u m \<longleftrightarrow>
        session_get e m u = RequestException
        \<or> (\<exists>r. session_get e m u = Responded r \<and> 400 \<le> status_code r \<and> status_code r < 600))"
    by (auto simp: failed_def checked_def http_error_def split: outcome.splits)
  from A B show ?thesis by (rule conjI)
qed

text \<open>With the network down: three sleeps, three GETs, and \<open>None\<close>.\<close>

theorem get_page_default_retries_witness:
  "failed offline ''https://example.org/bids'' 0
   \<and> failed offline ''https://example.org/bids'' 1
   \<and> failed offline ''https://example.org/bids'' 2
   \<and> fst (get_page_default offline ''https://example.org/bids'' fresh) = None
   \<and> trace (snd (get_page_default offline ''https://example.org/bids'' fresh))
       = [Sleep 2, Get ''https://example.org/bids'', Sleep 2, Get ''https://example.org/bids'',
          Sleep 2, Get ''https://example.org/bids'']"
  using get_page_default_retries
          [where e = offline and u = "''https://example.org/bids''" and w = fresh and m = 0]
  by (simp add: get_page_default_def get_page_def upt3 Let_def emit_def failed_def checked_def
        offline_def fresh_def)

section \<open>Properties of the aggregation\<close>

lemma columns_setitem:
  "columns (setitem df l v) = (if l \<in> set (columns df) then columns df else columns df @ [l])"
  by (simp add: setitem_def)

lemma rows_setitem: "length (rows (setitem df l v)) = length (rows df)"
  by (simp add: setitem_def)

lemma process_table_rejects:
  "\<not> accepted df \<Longrightarrow> process_table e p f w (i, df) = w"
  by (auto simp add: process_table_def accepted_def df_empty_def)

lemma process_table_accepts:
  assumes "accepted df"
  shows "\<exists>stored. process_table e p f w (i, df)
                    = w\<lparr>ticks := ticks w + 1, all_bids := all_bids w @ [stored]\<rparr>
           \<and> columns stored = map clean_column (columns df @ added df)
           \<and> length (rows stored) = length (rows df)"
proof -
  let ?df1 = "setitem df ''project_name'' (Str (name p))"
  let ?df2 = "setitem ?df1 ''source_url'' (Str (url p))"
  let ?df3 = "setitem ?df2 ''pdf_source_file'' (Str f)"
  let ?df4 = "setitem ?df3 ''pdf_table_index'' (Num (int i))"
  let ?df5 = "setitem ?df4 ''scrape_timestamp'' (Str (now_isoformat e (ticks w)))"
  have c: "columns ?df5 = columns df @ added df"
    by (simp add: columns_setitem added_def provenance_def)
  have r: "length (rows ?df5) = length (rows df)"
    by (simp only: rows_setitem)
  let ?st = "?df5\<lparr>columns := map clean_column (columns ?df5)\<rparr>"
  from assms have "\<not> (df_empty df \<or> length (columns df) < 2)"
    by (auto simp: accepted_def df_empty_def)
  then have 1: "process_table e p f w (i, df)
          = w\<lparr>ticks := ticks w + 1, all_bids := all_bids w @ [?st]\<rparr>"
    by (simp add: process_table_def Let_def)
  have 2: "columns ?st = map clean_column (columns df @ added df)"
    using c by simp
  have 3: "length (rows ?st) = length (rows df)"
    using r by simp
  from 1 2 3 show ?thesis by blast
qed

lemma process_table_frame:
  "raw_pdfs (process_table e p f w idf) = raw_pdfs w"
  "logged (process_table e p f w idf) = logged w"
  "processed_data (process_table e p f w idf) = processed_data w"
  "requests (process_table e p f w idf) = requests w"
  "trace (process_table e p f w idf) = trace w"
  by (cases idf; simp add: process_table_def Let_def)+

lemma fold_tables:
  "\<exists>new. all_bids (foldl (process_table e p f) w (enumerate n tables)) = all_bids w @ new
      \<and> map columns new = map (\<lambda>d. map clean_column (columns d @ added d)) (filter accepted tables)
      \<and> map (\<lambda>d. length (rows d)) new = map (\<lambda>d. length (rows d)) (filter accepted tables)"
proof (induction tables arbitrary: w n)
  case Nil
  then show ?case by simp
next
  case (Cons df tables)
  show ?case
  proof (cases "accepted df")
    case False
    then have "process_table e p f w (n, df) = w" by (rule process_table_rejects)
    with False Cons.IH [of w "Suc n"] show ?thesis by simp
  next
    case True
    from process_table_accepts [OF True, of e p f w n]
    obtain stored where
      s: "process_table e p f w (n, df) = w\<lparr>ticks := ticks w + 1, all_bids := all_bids w @ [stored]\<rparr>"
      and c: "columns stored = map clean_column (columns df @ added df)"
      and r: "length (rows stored) = length (rows df)"
      by blast
    from Cons.IH [of "process_table e p f w (n, df)" "Suc n"] obtain new where
      n: "all_bids (foldl (process_table e p f) (process_table e p f w (n, df)) (enumerate (Suc n) tables))
            = all_bids (process_table e p f w (n, df)) @ new"
      and nc: "map columns new = map (\<lambda>d. map clean_column (columns d @ added d)) (filter accepted tables)"
      and nr: "map (\<lambda>d. length (rows d)) new = map (\<lambda>d. length (rows d)) (filter accepted tables)"
      by blast
    have "all_bids (foldl (process_table e p f) w (enumerate n (df # tables))) = all_bids w @ (stored # new)"
      using n s by simp
    moreover have "map columns (stored # new)
        = map (\<lambda>d. map clean_column (columns d @ added d)) (filter accepted (df # tables))"
      using True c nc by simp
    moreover have "map (\<lambda>d. length (rows d)) (stored # new)
        = map (\<lambda>d. length (rows d)) (filter accepted (df # tables))"
      using True r nr by simp
    ultimately show ?thesis by blast
  qed
qed

lemma clean_provenance: "map clean_column provenance = provenance"
  by (simp add: provenance_def clean_column_chars strip_def lstrip_def rstrip_def isspace_def
        whitespace_def clean_char_def lower_char_def ascii_uppercase_def ascii_lowercase_def
        latin1_uppercase_def latin1_lowercase_def)

lemma added_disjoint: "set (columns df) \<inter> set provenance = {} \<Longrightarrow> added df = provenance"
  by (auto simp: added_def filter_id_conv)


text \<open>
  C2, as stated, fails: a table of two columns and three rows whose first header is
  \<open>project_name\<close> is kept with six columns, not seven, because the assignment of the
  provenance value overwrites the column that carries the label already.
\<close>

theorem provenance_label_collision:
  "length (columns labelled_table) = 2 \<and> length (rows labelled_table) = 3
   \<and> map columns (all_bids (process_tables offline road ''f.pdf'' [labelled_table] fresh))
     = [[''project_name'', ''amount'', ''source_url'', ''pdf_source_file'', ''pdf_table_index'',
         ''scrape_timestamp'']]"
  by code_simp

lemma clean_label:
  assumes "l \<in> set provenance"
  shows "clean_column l = l"
proof -
  from assms obtain j where "j < length provenance" and "l = provenance ! j"
    by (auto simp: in_set_conv_nth)
  then have "l = map clean_column provenance ! j"
    by (simp only: clean_provenance)
  also have "\<dots> = clean_column (provenance ! j)"
    using \<open>j < length provenance\<close> by simp
  finally show ?thesis using \<open>l = provenance ! j\<close> by simp
qed

lemma provenance_present:
  "set provenance \<subseteq> set (map clean_column (columns df @ added df))"
proof
  fix l assume l: "l \<in> set provenance"
  then have "l \<in> set (columns df @ added df)"
    by (auto simp: added_def)
  then have "clean_column l \<in> set (map clean_column (columns df @ added df))"
    by (simp only: set_map) (rule imageI)
  with clean_label [OF l] show "l \<in> set (map clean_column (columns df @ added df))"
    by simp
qed

lemma process_table_exact:
  assumes "accepted df" and "set (columns df) \<inter> set provenance = {}"
  shows "process_table e p f w (i, df)
           = w\<lparr>ticks := ticks w + 1,
               all_bids := all_bids w @ [with_provenance e p f (ticks w) i df]\<rparr>"
proof -
  from assms(2) have n: "''project_name'' \<notin> set (columns df)"
    "''source_url'' \<notin> set (columns df)" "''pdf_source_file'' \<notin> set (columns df)"
    "''pdf_table_index'' \<notin> set (columns df)" "''scrape_timestamp'' \<notin> set (columns df)"
    by (auto simp: provenance_def)
  from assms(1) have a: "\<not> (df_empty df \<or> length (columns df) < 2)"
    by (auto simp: accepted_def df_empty_def)
  have c: "map clean_column [''project_name'', ''source_url'', ''pdf_source_file'',
             ''pdf_table_index'', ''scrape_timestamp''] = provenance"
    using clean_provenance by (simp only: provenance_def)
  show ?thesis
    using a n c
    by (simp add: process_table_def Let_def setitem_def with_provenance_def)
qed

lemma fold_tables_exact:
  assumes "\<forall>idf \<in> set its. accepted (snd idf) \<longrightarrow> set (columns (snd idf)) \<inter> set provenance = {}"
  shows "all_bids (foldl (process_table e p f) w its)
           = all_bids w @ expected_bids e p f (ticks w) its"
  using assms
proof (induction its arbitrary: w)
  case Nil
  then show ?case by simp
next
  case (Cons idf its)
  obtain i df where idf: "idf = (i, df)" by (cases idf)
  from Cons.prems have rest:
    "\<forall>idf \<in> set its. accepted (snd idf) \<longrightarrow> set (columns (snd idf)) \<inter> set provenance = {}"
    by simp
  show ?case
  proof (cases "accepted df")
    case False
    then have "process_table e p f w (i, df) = w" by (rule process_table_rejects)
    with False idf Cons.IH [OF rest, of w] show ?thesis by simp
  next
    case True
    with Cons.prems idf have d: "set (columns df) \<inter> set provenance = {}" by simp
    let ?w1 = "w\<lparr>ticks := ticks w + 1,
                   all_bids := all_bids w @ [with_provenance e p f (ticks w) i df]\<rparr>"
    have s: "process_table e p f w (i, df) = ?w1"
      using True d by (rule process_table_exact)
    from Cons.IH [OF rest, of ?w1] True idf s show ?thesis by simp
  qed
qed

lemma length_columns_expected:
  "map (\<lambda>d. length (columns d)) (expected_bids e p f t its)
     = map (\<lambda>df. length (columns df) + 5) (filter accepted (map snd its))"
  by (induction its arbitrary: t) (auto simp: with_provenance_def provenance_def)

text \<open>
  C2, amended. Of the tables the extractor returns for one document, those with fewer
  than two columns or with no row leave the collection as it is, and each of the others
  adds one table to it, in order, with as many rows and with the five provenance labels
  among its headers. When no header of an accepted raw table is one of the five
  provenance labels, the added table is the raw table with its headers cleaned, the five
  provenance labels behind them and the five provenance values behind the cells of
  every row, the cells themselves unchanged: five columns more than the raw table.
\<close>

theorem process_tables_provenance:
  "(\<exists>new. all_bids (process_tables e p f tables w) = all_bids w @ new
       \<and> length new = length (filter accepted tables)
       \<and> list_all (\<lambda>d. set provenance \<subseteq> set (columns d)) new
       \<and> map (\<lambda>d. length (rows d)) new = map (\<lambda>df. length (rows df)) (filter accepted tables))
   \<and> ((\<forall>df \<in> set tables. accepted df \<longrightarrow> set (columns df) \<inter> set provenance = {}) \<longrightarrow>
         all_bids (process_tables e p f tables w)
           = all_bids w @ expected_bids e p f (ticks w) (enumerate 0 tables)
       \<and> map (\<lambda>d. length (columns d)) (expected_bids e p f (ticks w) (enumerate 0 tables))
           = map (\<lambda>df. length (columns df) + 5) (filter accepted tables))"
proof (intro conjI impI)
  from fold_tables [of e p f w 0 tables] obtain new where
    a: "all_bids (process_tables e p f tables w) = all_bids w @ new"
    and c: "map columns new = map (\<lambda>d. map clean_column (columns d @ added d)) (filter accepted tables)"
    and r: "map (\<lambda>d. length (rows d)) new = map (\<lambda>d. length (rows d)) (filter accepted tables)"
    unfolding process_tables_def by blast
  from c have "length (map columns new)
                 = length (map (\<lambda>d. map clean_column (columns d @ added d)) (filter accepted tables))"
    by (simp only:)
  then have l: "length new = length (filter accepted tables)" by simp
  have "\<forall>cs \<in> set (map columns new). set provenance \<subseteq> set cs"
    unfolding c using provenance_present by auto
  then have pr: "list_all (\<lambda>d. set provenance \<subseteq> set (columns d)) new"
    by (simp add: list_all_iff)
  from a l pr r show "\<exists>new. all_bids (process_tables e p f tables w) = all_bids w @ new
       \<and> length new = length (filter accepted tables)
       \<and> list_all (\<lambda>d. set provenance \<subseteq> set (columns d)) new
       \<and> map (\<lambda>d. length (rows d)) new = map (\<lambda>df. length (rows df)) (filter accepted tables)"
    by blast
next
  assume h: "\<forall>df \<in> set tables. accepted df \<longrightarrow> set (columns df) \<inter> set provenance = {}"
  have "\<forall>idf \<in> set (enumerate 0 tables).
          accepted (snd idf) \<longrightarrow> set (columns (snd idf)) \<inter> set provenance = {}"
  proof
    fix idf assume "idf \<in> set (enumerate 0 tables)"
    then have "tables ! fst idf = snd idf" and "fst idf < length tables"
      by (simp_all add: in_set_enumerate_eq)
    then have "snd idf \<in> set tables"
      using nth_mem [of "fst idf" tables] by simp
    with h show "accepted (snd idf) \<longrightarrow> set (columns (snd idf)) \<inter> set provenance = {}"
      by blast
  qed
  from fold_tables_exact [OF this, of e p f w]
  show "all_bids (process_tables e p f tables w)
          = all_bids w @ expected_bids e p f (ticks w) (enumerate 0 tables)"
    by (simp add: process_tables_def)
next
  show "map (\<lambda>d. length (columns d)) (expected_bids e p f (ticks w) (enumerate 0 tables))
          = map (\<lambda>df. length (columns df) + 5) (filter accepted tables)"
    using length_columns_expected [of e p f "ticks w" "enumerate 0 tables"] by simp
qed

text \<open>
  A table of one column is dropped, even one headed by a provenance label; the table of
  two columns and three rows behind it is kept with seven columns, its cells in place.
\<close>

theorem process_tables_provenance_witness:
  "\<not> accepted junk_table \<and> accepted plain_table
   \<and> set (columns plain_table) \<inter> set provenance = {}
   \<and> all_bids (process_tables offline road ''f.pdf'' [junk_table, plain_table] fresh)
       = [\<lparr>columns = [''bidder'', ''amount'', ''project_name'', ''source_url'',
                      ''pdf_source_file'', ''pdf_table_index'', ''scrape_timestamp''],
           rows = [[Str ''A'', Str ''1'', Str ''Bid: Road/Bridge (Final)!!'',
                    Str ''https://example.org/files/bid123.pdf'', Str ''f.pdf'', Num 1,
                    Str ''2024-01-01T00:00:00''],
                   [Str ''B'', Str ''2'', Str ''Bid: Road/Bridge (Final)!!'',
                    Str ''https://example.org/files/bid123.pdf'', Str ''f.pdf'', Num 1,
                    Str ''2024-01-01T00:00:00''],
                   [Str ''C'', Str ''3'', Str ''Bid: Road/Bridge (Final)!!'',
                    Str ''https://example.org/files/bid123.pdf'', Str ''f.pdf'', Num 1,
                    Str ''2024-01-01T00:00:00'']]\<rparr>]"
proof -
  have j: "\<not> accepted junk_table" by (simp add: accepted_def junk_table_def)
  have a: "accepted plain_table" by (simp add: accepted_def plain_table_def)
  have d: "set (columns plain_table) \<inter> set provenance = {}"
    by (simp add: plain_table_def provenance_def)
  from j d have h: "\<forall>df \<in> set [junk_table, plain_table].
                      accepted df \<longrightarrow> set (columns df) \<inter> set provenance = {}"
    by simp
  from process_tables_provenance
         [where tables = "[junk_table, plain_table]" and e = offline and p = road
            and f = "''f.pdf''" and w = fresh] h
  have "all_bids (process_tables offline road ''f.pdf'' [junk_table, plain_table] fresh)
          = all_bids fresh
            @ expected_bids offline road ''f.pdf'' (ticks fresh) (enumerate 0 [junk_table, plain_table])"
    by blast
  also have "\<dots> = [\<lparr>columns = [''bidder'', ''amount'', ''project_name'', ''source_url'',
                      ''pdf_source_file'', ''pdf_table_index'', ''scrape_timestamp''],
           rows = [[Str ''A'', Str ''1'', Str ''Bid: Road/Bridge (Final)!!'',
                    Str ''https://example.org/files/bid123.pdf'', Str ''f.pdf'', Num 1,
                    Str ''2024-01-01T00:00:00''],
                   [Str ''B'', Str ''2'', Str ''Bid: Road/Bridge (Final)!!'',
                    Str ''https://example.org/files/bid123.pdf'', Str ''f.pdf'', Num 1,
                    Str ''2024-01-01T00:00:00''],
                   [Str ''C'', Str ''3'', Str ''Bid: Road/Bridge (Final)!!'',
                    Str ''https://example.org/files/bid123.pdf'', Str ''f.pdf'', Num 1,
                    Str ''2024-01-01T00:00:00'']]\<rparr>]"
    by code_simp
  finally show ?thesis using j a d by simp
qed

text \<open>
  C3, as stated, fails: the header \<open>Bid  Amount\<close>, with two spaces in a row, is stored
  with two underscores, where collapsing the run would give one.
\<close>

theorem header_run_not_collapsed:
  "map columns (all_bids (process_tables offline road ''f.pdf'' [spaced_table] fresh))
     = [[''bid__amount'', ''item'', ''project_name'', ''source_url'', ''pdf_source_file'',
         ''pdf_table_index'', ''scrape_timestamp'']]
   \<and> collapsed_column ''Bid  Amount'' = ''bid_amount''"
  by code_simp

text \<open>
  C3, amended. In an accepted table every original header is stored as its trimmed form
  with each character lower-cased and each space, carriage return and newline replaced
  by an underscore, one for one: the stored header is as long as the trimmed raw header,
  so a run of several such characters gives as many underscores. The original headers
  are the first headers of the stored table, in their order.
\<close>

theorem stored_headers_cleaned:
  assumes "accepted df"
  shows "\<exists>stored. all_bids (process_table e p f w (i, df)) = all_bids w @ [stored]
     \<and> take (length (columns df)) (columns stored)
         = map (\<lambda>h. map clean_char (strip h)) (columns df)
     \<and> (\<forall>h \<in> set (columns df). length (clean_column h) = length (strip h))"
proof -
  from process_table_accepts [OF assms, of e p f w i] obtain stored where
    s: "process_table e p f w (i, df) = w\<lparr>ticks := ticks w + 1, all_bids := all_bids w @ [stored]\<rparr>"
    and c: "columns stored = map clean_column (columns df @ added df)"
    by blast
  from s have "all_bids (process_table e p f w (i, df)) = all_bids w @ [stored]" by simp
  moreover from c have "take (length (columns df)) (columns stored)
         = map (\<lambda>h. map clean_char (strip h)) (columns df)"
    by (simp add: clean_column_chars)
  moreover have "\<forall>h \<in> set (columns df). length (clean_column h) = length (strip h)"
    by (simp add: clean_column_chars)
  ultimately show ?thesis by blast
qed

theorem stored_headers_cleaned_witness:
  "accepted accent_table
   \<and> map (\<lambda>d. take 2 (columns d))
         (all_bids (process_table offline road ''f.pdf'' fresh (0, accent_table)))
       = [[''total'', ''co'' @ [CHR 0xFB] @ ''t__ht'']]"
proof -
  have h: "accepted accent_table" by (simp add: accepted_def accent_table_def)
  have v: "map (\<lambda>h. map clean_char (strip h)) (columns accent_table)
             = [''total'', ''co'' @ [CHR 0xFB] @ ''t__ht'']"
    by code_simp
  have l: "length (columns accent_table) = 2" by (simp add: accent_table_def)
  from stored_headers_cleaned [OF h, of offline road "''f.pdf''" fresh 0] obtain stored where
    a: "all_bids (process_table offline road ''f.pdf'' fresh (0, accent_table))
          = all_bids fresh @ [stored]"
    and t: "take (length (columns accent_table)) (columns stored)
              = map (\<lambda>h. map clean_char (strip h)) (columns accent_table)"
    by blast
  from a have "map (\<lambda>d. take 2 (columns d))
                 (all_bids (process_table offline road ''f.pdf'' fresh (0, accent_table)))
       = [take 2 (columns stored)]"
    by (simp add: fresh_def)
  also have "\<dots> = [[''total'', ''co'' @ [CHR 0xFB] @ ''t__ht'']]"
    using t unfolding l v by simp
  finally show ?thesis using h by simp
qed

section \<open>Properties of the saved documents\<close>

lemma get_page_default_frame:
  assumes "get_page_default e u w = (res, w')"
  shows "all_bids w' = all_bids w" "raw_pdfs w' = raw_pdfs w" "ticks w' = ticks w"
    "processed_data w' = processed_data w"
    "scanned (logged w') = scanned (logged w)" "processed (logged w') = processed (logged w)"
  using attempts_frame [of e u 3 2 "[0..<3]" w res w'] assms
  by (simp_all add: get_page_default_def get_page_def)

lemma get_page_default_ok:
  "get_page_default e u w = (Some r, w') \<Longrightarrow> \<not> http_error r"
  unfolding get_page_default_def get_page_def by (rule attempts_ok)

lemma fold_tables_frame:
  "raw_pdfs (foldl (process_table e p f) w xs) = raw_pdfs w
   \<and> logged (foldl (process_table e p f) w xs) = logged w
   \<and> processed_data (foldl (process_table e p f) w xs) = processed_data w"
  by (induction xs arbitrary: w) (simp_all add: process_table_frame)

lemma process_tables_frame:
  "raw_pdfs (process_tables e p f tables w) = raw_pdfs w"
  "logged (process_tables e p f tables w) = logged w"
  "processed_data (process_tables e p f tables w) = processed_data w"
  by (simp_all add: process_tables_def fold_tables_frame)

lemma re_sub_unsafe_chars:
  "re_sub unsafe_chars [] s = filter (\<lambda>c. is_word c \<or> isspace c \<or> c = CHR ''-'') s"
  by (induction s) (simp_all add: unsafe_chars_def)

lemma process_pdf_raw:
  "raw_pdfs (process_pdf e p w)
     = (case fst (get_page_default e (url p) (emit (Info_processing (name p)) w)) of
          None \<Rightarrow> raw_pdfs w
        | Some r \<Rightarrow> raw_pdfs w @ [(pdf_name (name p), content r)])"
proof -
  obtain res w1 where g: "get_page_default e (url p) (emit (Info_processing (name p)) w) = (res, w1)"
    by (cases "get_page_default e (url p) (emit (Info_processing (name p)) w)")
  from get_page_default_frame(2) [OF g] have r: "raw_pdfs w1 = raw_pdfs w"
    by (simp add: emit_def)
  show ?thesis
  proof (cases res)
    case None
    with g r show ?thesis by (simp add: process_pdf_def)
  next
    case (Some x)
    with g have "\<not> http_error x" by (auto dest: get_page_default_ok)
    with g r Some show ?thesis
      by (auto simp: process_pdf_def Let_def emit_def process_tables_frame split: option.splits)
  qed
qed

text \<open>
  C6. The name a document is saved under is the project's name with every character
  that is not a word character, whitespace or a hyphen removed, cut to its first 100
  characters, with each space replaced by an underscore and \<open>.pdf\<close> appended, so at most
  104 characters; \<open>Bid: Road/Bridge (Final)!!\<close> gives \<open>Bid_RoadBridge_Final.pdf\<close>. When
  the fetch of the document gives a response, \<open>process_pdf\<close> writes one file, with this
  name and the bytes of the response; when it gives none, it writes no file.
\<close>

theorem pdf_name_derivation:
  "pdf_name n = map (\<lambda>c. if c = CHR '' '' then CHR ''_'' else c)
                    (take 100 (filter (\<lambda>c. is_word c \<or> isspace c \<or> c = CHR ''-'') n))
                @ ''.pdf''
   \<and> length (pdf_name n) \<le> 104
   \<and> pdf_name ''Bid: Road/Bridge (Final)!!'' = ''Bid_RoadBridge_Final.pdf''
   \<and> raw_pdfs (process_pdf e p w)
       = (case fst (get_page_default e (url p) (emit (Info_processing (name p)) w)) of
            None \<Rightarrow> raw_pdfs w
          | Some r \<Rightarrow> raw_pdfs w @ [(pdf_name (name p), content r)])"
proof -
  have 1: "pdf_name n = map (\<lambda>c. if c = CHR '' '' then CHR ''_'' else c)
                    (take 100 (filter (\<lambda>c. is_word c \<or> isspace c \<or> c = CHR ''-'') n))
                @ ''.pdf''"
    by (simp add: pdf_name_def replace_char_def re_sub_unsafe_chars)
  have 2: "length (pdf_name n) \<le> 104"
    by (simp add: pdf_name_def replace_char_def)
  have 3: "pdf_name ''Bid: Road/Bridge (Final)!!'' = ''Bid_RoadBridge_Final.pdf''"
    by code_simp
  from 1 2 3 process_pdf_raw [of e p w] show ?thesis by (intro conjI)
qed

text \<open>
  A name with an accented letter keeps it; the document, fetched at the third attempt,
  is written under the derived name with the bytes of the response; with the network
  down nothing is written.
\<close>

theorem pdf_name_derivation_witness:
  "raw_pdfs (process_pdf sample cafe fresh)
     = [(''Caf'' @ [CHR 0xE9] @ ''_Bid_xy.pdf'', ''https://example.org/files/cafe.pdf'')]
   \<and> raw_pdfs (process_pdf offline cafe fresh) = []
   \<and> pdf_name (name road) = ''Bid_RoadBridge_Final.pdf''"
proof -
  note d = pdf_name_derivation [where n = "name road" and e = sample and p = cafe and w = fresh]
  note o = conjunct2 [OF conjunct2 [OF conjunct2
             [OF pdf_name_derivation [where n = "name road" and e = offline and p = cafe and w = fresh]]]]
  from d have "raw_pdfs (process_pdf sample cafe fresh)
       = (case fst (get_page_default sample (url cafe) (emit (Info_processing (name cafe)) fresh)) of
            None \<Rightarrow> raw_pdfs fresh
          | Some r \<Rightarrow> raw_pdfs fresh @ [(pdf_name (name cafe), content r)])"
    by (rule conjunct2 [OF conjunct2 [OF conjunct2]])
  also have "\<dots> = [(''Caf'' @ [CHR 0xE9] @ ''_Bid_xy.pdf'', ''https://example.org/files/cafe.pdf'')]"
    by code_simp
  finally have 1: "raw_pdfs (process_pdf sample cafe fresh)
     = [(''Caf'' @ [CHR 0xE9] @ ''_Bid_xy.pdf'', ''https://example.org/files/cafe.pdf'')]" .
  have "(case fst (get_page_default offline (url cafe) (emit (Info_processing (name cafe)) fresh)) of
            None \<Rightarrow> raw_pdfs fresh
          | Some r \<Rightarrow> raw_pdfs fresh @ [(pdf_name (name cafe), content r)]) = []"
    by code_simp
  with o have 2: "raw_pdfs (process_pdf offline cafe fresh) = []" by (simp only:)
  from d have "pdf_name ''Bid: Road/Bridge (Final)!!'' = ''Bid_RoadBridge_Final.pdf''"
    by (rule conjunct1 [OF conjunct2 [OF conjunct2]])
  moreover have "name road = ''Bid: Road/Bridge (Final)!!''"
    by (simp add: road_def)
  ultimately have 3: "pdf_name (name road) = ''Bid_RoadBridge_Final.pdf''" by (simp only:)
  from 1 2 3 show ?thesis by (intro conjI)
qed

section \<open>Properties of the link extraction\<close>



















section \<open>Properties of the deduplication\<close>

lemma set_unique_labels: "set (unique_labels xs) = set xs"
  by (induction xs) auto

lemma distinct_unique_labels: "distinct (unique_labels xs)"
  by (induction xs) (auto simp: set_unique_labels)

lemma unique_labels_snoc:
  "unique_labels (xs @ [y]) = (if y \<in> set xs then unique_labels xs else unique_labels xs @ [y])"
  by (induction xs) (auto simp: set_unique_labels)

lemma unique_labels_first_occurrences: "unique_labels xs = rev (remdups (rev xs))"
  by (induction xs rule: rev_induct) (simp_all add: unique_labels_snoc)

lemma keys_dict_set:
  "map fst (dict_set d k v) = (if k \<in> set (map fst d) then map fst d else map fst d @ [k])"
proof (induction d)
  case Nil
  then show ?case by simp
next
  case (Cons a d)
  obtain k' v' where a: "a = (k', v')" by (cases a)
  show ?case
  proof (cases "k' = k")
    case True
    with a show ?thesis by simp
  next
    case False
    with a Cons.IH show ?thesis by simp
  qed
qed

lemma map_of_dict_set: "map_of (dict_set d k v) = (map_of d)(k \<mapsto> v)"
  by (induction d) (auto simp: fun_eq_iff)

lemma by_url_snoc: "by_url (xs @ [x]) = dict_set (by_url xs) (url x) x"
  by (simp add: by_url_def)

lemma keys_by_url: "map fst (by_url xs) = unique_labels (map url xs)"
proof (induction xs rule: rev_induct)
  case Nil
  then show ?case by (simp add: by_url_def)
next
  case (snoc x xs)
  then show ?case
    by (simp add: by_url_snoc keys_dict_set unique_labels_snoc set_unique_labels)
qed

lemma map_of_by_url:
  "map_of (by_url xs) u
     = (if u \<in> set (map url xs) then Some (last (filter (\<lambda>q. url q = u) xs)) else None)"
proof (induction xs rule: rev_induct)
  case Nil
  then show ?case by (simp add: by_url_def)
next
  case (snoc x xs)
  then show ?case
    by (auto simp: by_url_snoc map_of_dict_set)
qed

lemma alist_from_keys:
  "distinct (map fst d) \<Longrightarrow> map snd d = map (\<lambda>k. the (map_of d k)) (map fst d)"
proof (induction d)
  case Nil
  then show ?case by simp
next
  case (Cons a d)
  obtain k v where a: "a = (k, v)" by (cases a)
  from Cons.prems a have nk: "k \<notin> set (map fst d)" and dd: "distinct (map fst d)"
    by simp_all
  have "map (\<lambda>k'. the (map_of (a # d) k')) (map fst d) = map (\<lambda>k'. the (map_of d k')) (map fst d)"
  proof (rule map_cong [OF refl])
    fix x assume "x \<in> set (map fst d)"
    with nk have "x \<noteq> k" by blast
    then show "the (map_of (a # d) x) = the (map_of d x)" using a by simp
  qed
  then have "map (\<lambda>k'. the (map_of (a # d) k')) (map fst d) = map snd d"
    using Cons.IH [OF dd] by (simp only:)
  moreover have "the (map_of (a # d) k) = v" using a by simp
  ultimately have "map (\<lambda>k'. the (map_of (a # d) k')) (k # map fst d) = v # map snd d"
    by (simp only: list.map)
  then show ?case using a by (simp only: list.map fst_conv snd_conv)
qed

lemma unique_projects_eq:
  "unique_projects links
     = map (\<lambda>u. last (filter (\<lambda>q. url q = u) links)) (unique_labels (map url links))"
proof -
  have d: "distinct (map fst (by_url links))"
    by (simp add: keys_by_url distinct_unique_labels)
  have "unique_projects links
          = map (\<lambda>k. the (map_of (by_url links) k)) (unique_labels (map url links))"
    unfolding unique_projects_def using alist_from_keys [OF d] by (simp add: keys_by_url)
  also have "\<dots> = map (\<lambda>u. last (filter (\<lambda>q. url q = u) links)) (unique_labels (map url links))"
    by (rule map_cong) (simp_all add: map_of_by_url set_unique_labels)
  finally show ?thesis .
qed

lemma scan_pages_acc:
  "fst (scan_pages e us acc w) = acc @ fst (scan_pages e us [] w)
   \<and> snd (scan_pages e us acc w) = snd (scan_pages e us [] w)"
proof (induction us arbitrary: acc w)
  case Nil
  then show ?case by simp
next
  case (Cons u us)
  obtain found w1 where f: "find_project_links e u w = (found, w1)"
    by (cases "find_project_links e u w")
  from Cons.IH [of "acc @ found" w1] Cons.IH [of found w1] f show ?case by simp
qed

lemma scan_pages_snoc:
  "fst (scan_pages e (us @ [u]) acc w)
     = fst (scan_pages e us acc w) @ fst (find_project_links e u (snd (scan_pages e us acc w)))"
proof (induction us arbitrary: acc w)
  case Nil
  then show ?case by (simp split: prod.splits)
next
  case (Cons a us)
  then show ?case by (simp split: prod.splits)
qed

text \<open>
  C4. Whatever links were discovered, the list \<open>run\<close> goes on with holds each URL once;
  its URLs are those of the discovered links, in the order of their first occurrence;
  the entry kept for a URL is the last discovered link with that URL; and the discovered
  links are those of the seed pages one after the other, in the order of the seed list
  (within a page they are in document order, see C1).
\<close>

theorem unique_projects_dedup:
  "distinct (map url (unique_projects links))
   \<and> set (map url (unique_projects links)) = set (map url links)
   \<and> map url (unique_projects links) = rev (remdups (rev (map url links)))
   \<and> unique_projects links
       = map (\<lambda>u. last (filter (\<lambda>q. url q = u) links)) (rev (remdups (rev (map url links))))
   \<and> fst (scan_pages e (us @ [u]) [] w)
       = fst (scan_pages e us [] w) @ fst (find_project_links e u (snd (scan_pages e us [] w)))"
proof -
  have k: "map url (unique_projects links) = unique_labels (map url links)"
  proof -
    have "map url (unique_projects links)
            = map (\<lambda>u. url (last (filter (\<lambda>q. url q = u) links))) (unique_labels (map url links))"
      by (simp add: unique_projects_eq comp_def)
    also have "\<dots> = map (\<lambda>u. u) (unique_labels (map url links))"
    proof (rule map_cong [OF refl])
      fix u assume "u \<in> set (unique_labels (map url links))"
      then have "filter (\<lambda>q. url q = u) links \<noteq> []"
        by (auto simp: set_unique_labels filter_empty_conv)
      then have "last (filter (\<lambda>q. url q = u) links) \<in> set (filter (\<lambda>q. url q = u) links)"
        by (rule last_in_set)
      then show "url (last (filter (\<lambda>q. url q = u) links)) = u" by simp
    qed
    finally show ?thesis by simp
  qed
  from k have 1: "distinct (map url (unique_projects links))"
    by (simp add: distinct_unique_labels)
  from k have 2: "set (map url (unique_projects links)) = set (map url links)"
    by (simp add: set_unique_labels)
  from k have 3: "map url (unique_projects links) = rev (remdups (rev (map url links)))"
    by (simp add: unique_labels_first_occurrences)
  have 4: "unique_projects links
       = map (\<lambda>u. last (filter (\<lambda>q. url q = u) links)) (rev (remdups (rev (map url links))))"
    by (simp add: unique_projects_eq unique_labels_first_occurrences)
  from 1 2 3 4 scan_pages_snoc [of e us u "[]" w] show ?thesis by blast
qed

text \<open>Of two links with one URL the second is kept, at the place of the first.\<close>

theorem unique_projects_dedup_witness:
  "unique_projects sample_links
     = [\<lparr>name = ''Awardletter'', url = ''https://example.org/files/bid123.pdf'',
          source = ''https://example.org/bids''\<rparr>,
        \<lparr>name = ''Letting map'', url = ''https://example.org/docs/Map.PDF'',
          source = ''https://example.org/bids''\<rparr>]"
proof -
  from unique_projects_dedup
         [where links = sample_links and e = offline and us = "[]" and u = "[]" and w = fresh]
  have "unique_projects sample_links
          = map (\<lambda>u. last (filter (\<lambda>q. url q = u) sample_links))
                (rev (remdups (rev (map url sample_links))))"
    by blast
  also have "\<dots> = [\<lparr>name = ''Awardletter'', url = ''https://example.org/files/bid123.pdf'',
          source = ''https://example.org/bids''\<rparr>,
        \<lparr>name = ''Letting map'', url = ''https://example.org/docs/Map.PDF'',
          source = ''https://example.org/bids''\<rparr>]"
    by code_simp
  finally show ?thesis .
qed

section \<open>Properties of the output\<close>

lemma find_project_links_frame:
  assumes "find_project_links e u w = (found, w')"
  shows "all_bids w' = all_bids w \<and> raw_pdfs w' = raw_pdfs w \<and> ticks w' = ticks w
     \<and> processed_data w' = processed_data w
     \<and> scanned (logged w') = scanned (logged w) @ [u]
     \<and> processed (logged w') = processed (logged w)"
proof -
  obtain res w1 where g: "get_page_default e u (emit (Info_searching u) w) = (res, w1)"
    by (cases "get_page_default e u (emit (Info_searching u) w)")
  note f = get_page_default_frame [OF g]
  have w1: "all_bids w1 = all_bids w \<and> raw_pdfs w1 = raw_pdfs w \<and> ticks w1 = ticks w
     \<and> processed_data w1 = processed_data w
     \<and> scanned (logged w1) = scanned (logged w) @ [u]
     \<and> processed (logged w1) = processed (logged w)"
    using f by (simp add: emit_def scanned_append processed_append)
  have "w' = w1 \<or> (\<exists>n. w' = emit (Info_found n) w1)"
    using assms g by (auto simp: find_project_links_def Let_def split: option.splits if_splits)
  with w1 show ?thesis
    by (auto simp: emit_def scanned_append processed_append)
qed

lemma scan_pages_frame:
  "scan_pages e us acc w = (links, w') \<Longrightarrow>
     all_bids w' = all_bids w \<and> raw_pdfs w' = raw_pdfs w \<and> ticks w' = ticks w
     \<and> processed_data w' = processed_data w
     \<and> scanned (logged w') = scanned (logged w) @ us
     \<and> processed (logged w') = processed (logged w)"
proof (induction us arbitrary: acc w)
  case Nil
  then show ?case by simp
next
  case (Cons u us)
  obtain found w1 where f: "find_project_links e u w = (found, w1)"
    by (cases "find_project_links e u w")
  with Cons.prems have "scan_pages e us (acc @ found) w1 = (links, w')" by simp
  from Cons.IH [OF this] find_project_links_frame [OF f] show ?case by simp
qed

lemma process_pdf_frame:
  "processed_data (process_pdf e p w) = processed_data w
   \<and> scanned (logged (process_pdf e p w)) = scanned (logged w)
   \<and> processed (logged (process_pdf e p w)) = processed (logged w) @ [name p]"
proof -
  obtain res w1 where g: "get_page_default e (url p) (emit (Info_processing (name p)) w) = (res, w1)"
    by (cases "get_page_default e (url p) (emit (Info_processing (name p)) w)")
  note f = get_page_default_frame [OF g]
  have w1: "processed_data w1 = processed_data w
     \<and> scanned (logged w1) = scanned (logged w)
     \<and> processed (logged w1) = processed (logged w) @ [name p]"
    using f by (simp add: emit_def scanned_append processed_append)
  show ?thesis
    using g w1
    by (auto simp: process_pdf_def Let_def emit_def process_tables_frame scanned_append
          processed_append split: option.splits)
qed

lemma process_all_frame:
  "processed_data (foldl (\<lambda>w' p. process_pdf e p w') w ps) = processed_data w
   \<and> scanned (logged (foldl (\<lambda>w' p. process_pdf e p w') w ps)) = scanned (logged w)
   \<and> processed (logged (foldl (\<lambda>w' p. process_pdf e p w') w ps))
       = processed (logged w) @ map name ps"
  by (induction ps arbitrary: w) (simp_all add: process_pdf_frame)

lemma collect_frame:
  "processed_data (collect e mode w) = processed_data w
   \<and> scanned (logged (collect e mode w)) = scanned (logged w) @ urls_to_scan mode
   \<and> processed (logged (collect e mode w))
       = processed (logged w)
         @ map name (projects_to_process mode
                      (unique_projects (fst (scan_pages e (urls_to_scan mode) [] w))))"
proof -
  obtain links w1 where s: "scan_pages e (urls_to_scan mode) [] w = (links, w1)"
    by (cases "scan_pages e (urls_to_scan mode) [] w")
  from scan_pages_frame [OF s] show ?thesis
    by (simp add: collect_def s Let_def process_all_frame emit_def scanned_append processed_append)
qed


lemma length_reindex: "length (reindex labels d) = length (rows d)"
  by (simp add: reindex_def)

lemma length_convert: "length (convert to_dtype rs) = length rs"
  by (simp add: convert_def)

lemma length_concat_reindex:
  "length (concat (map (reindex labels) dfs)) = sum_list (map (\<lambda>d. length (rows d)) dfs)"
  by (induction dfs) (simp_all add: length_reindex)

lemma length_concat_rows:
  "length (concat (map rows dfs)) = sum_list (map (\<lambda>d. length (rows d)) dfs)"
  by (induction dfs) simp_all

text \<open>Frames that can be put together are: all their rows, under all their labels.\<close>

lemma pd_concat_ok:
  assumes "dfs \<noteq> []" and "compatible dfs"
  shows "\<exists>final. pd_concat to_dtype dfs = Inr final
     \<and> length (rows final) = sum_list (map (\<lambda>d. length (rows d)) dfs)
     \<and> set (columns final) = (\<Union>d \<in> set dfs. set (columns d))"
proof -
  from assms(1) obtain df rest where dfs: "dfs = df # rest" by (cases dfs) auto
  show ?thesis
  proof (cases "list_all (\<lambda>d. columns d = columns df) rest")
    case True
    let ?final = "\<lparr>columns = columns df,
                   rows = convert (to_dtype (df # rest)) (concat (map rows (df # rest)))\<rparr>"
    have 1: "pd_concat to_dtype dfs = Inr ?final" using True dfs by simp
    have eq: "\<forall>d \<in> set dfs. columns d = columns df"
      using True dfs by (auto simp: list_all_iff)
    have 2: "length (rows ?final) = sum_list (map (\<lambda>d. length (rows d)) dfs)"
      using length_concat_rows [of dfs] dfs by (simp add: length_convert)
    have 3: "set (columns ?final) = (\<Union>d \<in> set dfs. set (columns d))"
      using eq dfs by auto
    from 1 2 3 show ?thesis by blast
  next
    case False
    have "\<not> list_all (\<lambda>d. columns d = columns (hd dfs)) dfs"
      using False dfs by simp
    with assms(2) have dist: "list_all (\<lambda>d. distinct (columns d)) dfs"
      by (simp add: compatible_def)
    then have nodup: "\<not> list_ex (\<lambda>d. \<not> distinct (columns d)) (df # rest)"
      using dfs by (simp add: list_all_iff list_ex_iff)
    let ?labels = "unique_labels (concat (map columns (df # rest)))"
    let ?final = "\<lparr>columns = ?labels,
                   rows = convert (to_dtype (df # rest))
                            (concat (map (reindex ?labels) (df # rest)))\<rparr>"
    have 1: "pd_concat to_dtype dfs = Inr ?final"
      unfolding dfs pd_concat.simps using False nodup by (simp only: if_False Let_def)
    have 2: "length (rows ?final) = sum_list (map (\<lambda>d. length (rows d)) dfs)"
      using length_concat_reindex [of ?labels dfs] dfs by (simp add: length_convert)
    have 3: "set (columns ?final) = (\<Union>d \<in> set dfs. set (columns d))"
      using dfs by (simp add: set_unique_labels)
    from 1 2 3 show ?thesis by blast
  qed
qed

text \<open>
  Away from repeated headers the run does write its output: when the accepted tables
  can be put together and there is at least one, one output table is written, with as
  many rows as they have together and with all their labels; when there is none, the
  run ends normally without an output.
\<close>

lemma run_output_when_compatible:
  assumes "compatible (all_bids (collect e mode w))"
  shows "(all_bids (collect e mode w) \<noteq> [] \<longrightarrow>
           (\<exists>w' path final. run e mode w = Inr w'
              \<and> processed_data w' = processed_data w @ [(path, final)]
              \<and> length (rows final)
                  = sum_list (map (\<lambda>d. length (rows d)) (all_bids (collect e mode w)))
              \<and> set (columns final) = (\<Union>d \<in> set (all_bids (collect e mode w)). set (columns d))))
       \<and> (all_bids (collect e mode w) = [] \<longrightarrow>
           (\<exists>w'. run e mode w = Inr w' \<and> processed_data w' = processed_data w))"
proof (intro conjI impI)
  let ?c = "collect e mode w"
  have p: "processed_data ?c = processed_data w"
    using collect_frame [of e mode w] by blast
  {
    assume ne: "all_bids ?c \<noteq> []"
    from pd_concat_ok [OF ne assms, of "astype e"] obtain final where
      f: "pd_concat (astype e) (all_bids ?c) = Inr final"
      and rest: "length (rows final) = sum_list (map (\<lambda>d. length (rows d)) (all_bids ?c))"
        "set (columns final) = (\<Union>d \<in> set (all_bids ?c). set (columns d))"
      by blast
    let ?path = "''nc_bid_data_'' @ now_strftime e (ticks ?c) @ ''.csv''"
    let ?w' = "emit (Info_saved (length (rows final)) ?path)
                 (?c\<lparr>ticks := ticks ?c + 1,
                      processed_data := processed_data ?c @ [(?path, final)]\<rparr>)"
    have "run e mode w = Inr ?w'"
      using ne f by (simp add: run_def save_results_def Let_def)
    moreover have "processed_data ?w' = processed_data w @ [(?path, final)]"
      using p by (simp add: emit_def)
    ultimately show "\<exists>w' path final. run e mode w = Inr w'
              \<and> processed_data w' = processed_data w @ [(path, final)]
              \<and> length (rows final) = sum_list (map (\<lambda>d. length (rows d)) (all_bids ?c))
              \<and> set (columns final) = (\<Union>d \<in> set (all_bids ?c). set (columns d))"
      using rest by blast
  }
  {
    assume "all_bids ?c = []"
    then have "run e mode w = Inr (emit Warn_no_data ?c)"
      by (simp add: run_def save_results_def)
    moreover have "processed_data (emit Warn_no_data ?c) = processed_data w"
      using p by (simp add: emit_def)
    ultimately show "\<exists>w'. run e mode w = Inr w' \<and> processed_data w' = processed_data w"
      by blast
  }
qed

text \<open>
  C7. The claim is that a run whose collection of accepted tables is not empty writes
  exactly one output table, with as many rows as the accepted tables have together.
  The run below accepts two tables with four rows in all. The first comes with the
  headers \<open>Amount\<close> and \<open>amount\<close>, which line 105 stores both as \<open>amount\<close>; the second has
  the headers \<open>bidder\<close> and \<open>amount\<close>. On these frames \<open>pd.concat\<close> raises
  \<open>InvalidIndexError\<close>, nothing in \<open>run\<close> catches it, and the run ends with the exception
  and without an output table.
\<close>

theorem run_stops_on_repeated_header:
  "map (take 2) (map columns (all_bids (collect clash ''test'' fresh)))
     = [[''amount'', ''amount''], [''bidder'', ''amount'']]
   \<and> map length (map rows (all_bids (collect clash ''test'' fresh))) = [1, 3]
   \<and> run clash ''test'' fresh = Inl InvalidIndexError"
  by code_simp

section \<open>Properties of the modes\<close>





text \<open>
  C9. With a mode that is not the exact string \<open>full\<close>, \<open>run\<close> does what it does in
  \<open>test\<close> mode: the first seed URL is the only page scanned and at most five documents
  are processed. The string \<open>full\<close> itself selects every seed URL and every link.
\<close>

theorem other_modes_run_as_test:
  assumes "mode \<noteq> ''full''"
  shows "run e mode w = run e ''test'' w
     \<and> urls_to_scan mode = [base_urls ! 0]
     \<and> scanned (logged (collect e mode w)) = scanned (logged w) @ [base_urls ! 0]
     \<and> projects_to_process mode unique = take 5 unique
     \<and> length (projects_to_process mode unique) \<le> 5
     \<and> urls_to_scan ''full'' = base_urls
     \<and> projects_to_process ''full'' unique = unique"
proof -
  have c: "collect e mode w = collect e ''test'' w"
    using assms by (simp add: collect_def urls_to_scan_def projects_to_process_def)
  then have 1: "run e mode w = run e ''test'' w" by (simp add: run_def)
  have 2: "urls_to_scan mode = [base_urls ! 0]"
    using assms by (simp add: urls_to_scan_def)
  have 3: "scanned (logged (collect e mode w)) = scanned (logged w) @ [base_urls ! 0]"
    using collect_frame [of e mode w] 2 by simp
  have 4: "projects_to_process mode unique = take 5 unique
     \<and> length (projects_to_process mode unique) \<le> 5"
    using assms by (simp add: projects_to_process_def)
  have 5: "urls_to_scan ''full'' = base_urls \<and> projects_to_process ''full'' unique = unique"
    by (simp add: urls_to_scan_def projects_to_process_def)
  from 1 2 3 4 5 show ?thesis by blast
qed

text \<open>The mode \<open>FULL\<close> runs as \<open>test\<close>.\<close>

theorem other_modes_run_as_test_witness:
  "''FULL'' \<noteq> ''full''
   \<and> run sample ''FULL'' fresh = run sample ''test'' fresh
   \<and> urls_to_scan ''FULL''
       = [''https://ncadmin.nc.gov/businesses/construction/projects-design-advertised-bidding'']
   \<and> length (projects_to_process ''FULL'' twelve) = 5"
proof -
  have h: "''FULL'' \<noteq> ''full''" by simp
  note om = other_modes_run_as_test [OF h, where e = sample and w = fresh and unique = twelve]
  from om have 1: "run sample ''FULL'' fresh = run sample ''test'' fresh"
    and 2: "urls_to_scan ''FULL'' = [base_urls ! 0]"
    and 3: "projects_to_process ''FULL'' twelve = take 5 twelve"
    by blast+
  from 2 have u2: "urls_to_scan ''FULL''
       = [''https://ncadmin.nc.gov/businesses/construction/projects-design-advertised-bidding'']"
    by (simp add: base_urls_def)
  from 3 have u3: "length (projects_to_process ''FULL'' twelve) = 5"
    by (simp add: twelve_def)
  from h 1 u2 u3 show ?thesis by blast
qed

end
